theory Spec2Isabelle
  imports Complex_Main "HOL-Library.Option_ord"
begin

section \<open>Expression nodes\<close>

text \<open>
  The node classes of the form language are not part of the sources at hand; the
  estimators only use a node's class (to pick a handler), its operands, the element
  degree of a form argument and the integer conversion of a power's exponent.
  A node is therefore its kind and its ordered operands. Nodes are immutable values, and
  a node is identified by its kind and operands, so a sub-expression shared by several
  parents is one and the same value.
\<close>

datatype error = TypeError | ValueError | AttributeError | OverflowError | UFLException

datatype mathfn = Sqrt | Exp | Ln | Cos | Sin

datatype kind =
    SpatialCoordinate
  | FormArgument nat "int option"
  | ScalarValue real
  | Zero
  | SpatialDerivative
  | Product
  | Division
  | Power
  | MathFunction mathfn
  | BesselFunction
  | Other string

datatype expr = Expr (kind: kind) (operands: "expr list")

text \<open>\<open>v.element().degree()\<close>: only a form argument has an element; its degree is an
  integer or \<open>None\<close>. The first component of \<open>FormArgument\<close> is the argument's number.\<close>

definition element_degree :: "expr \<Rightarrow> error + int option" where
  "element_degree v = (case kind v of FormArgument n d \<Rightarrow> Inr d | _ \<Rightarrow> Inl AttributeError)"

text \<open>Python's \<open>max\<close> of a sequence: \<open>ValueError\<close> on the empty sequence. The
  program is Python 2, where \<open>None\<close> compares smaller than every number: that is the
  order of \<open>int option\<close>, with \<open>None\<close> least.\<close>

fun py_max :: "'a::linorder list \<Rightarrow> error + 'a" where
  "py_max [] = Inl ValueError"
| "py_max (x # xs) = Inr (fold max xs x)"

text \<open>Evaluating a list of fallible computations from left to right: the first
  exception ends the evaluation.\<close>

fun sequence :: "(error + 'a) list \<Rightarrow> error + 'a list" where
  "sequence [] = Inr []"
| "sequence (Inl e # xs) = Inl e"
| "sequence (Inr x # xs) = (case sequence xs of Inl e \<Rightarrow> Inl e | Inr ys \<Rightarrow> Inr (x # ys))"

section \<open>The traversal engine\<close>

text \<open>
  Modelled from the spec: the \<open>Transformer\<close> base class (\<open>ufl.algorithms.transformer\<close>),
  whose \<open>visit\<close> both estimators inherit, is not among the sources. Following section 4.1
  of the specification: a cache maps a node to its computed result for the time of one
  evaluation; a cached node returns its cached value; otherwise the operands are
  evaluated first, in order, then the rule selected for the node's kind is called with
  the node and the operand results, and the result is stored. The rule is the one
  registered for the exact kind, else the terminal rule when the node has no operands,
  else the fallback rule for any compound expression.

  A rule is a method of the rule set object, called as \<open>h(v, *results)\<close>. Besides
  returning a result or raising, it may change the fields of its object, as the rules
  of a call-counting rule set do: a rule takes the fields and returns them. A handler
  is a method that leaves its object alone; it fails with \<open>TypeError\<close> when the number
  of results does not fit its parameters.
\<close>

type_synonym 'r handler = "expr \<Rightarrow> 'r list \<Rightarrow> error + 'r"

type_synonym ('r, 'c) rule = "expr \<Rightarrow> 'r list \<Rightarrow> 'c \<Rightarrow> (error + 'r) \<times> 'c"

definition pure_rule :: "'r handler \<Rightarrow> ('r, 'c) rule" where
  "pure_rule h v results c = (h v results, c)"

record ('r, 'c) rule_set =
  exact :: "kind \<Rightarrow> ('r, 'c) rule option"
  terminal :: "('r, 'c) rule"
  fallback :: "('r, 'c) rule"

text \<open>The state of a traversal: the cache and the fields of the rule set object.\<close>

record ('r, 'c) state =
  cache :: "expr \<rightharpoonup> 'r"
  self :: "'c"

text \<open>Modelled from the spec: the rule for a node (section 4.1, step 4) is the one
  registered for its exact kind; without one, the terminal rule when the node has no
  operands and the rule for any compound expression otherwise.\<close>

definition resolve :: "('r, 'c) rule_set \<Rightarrow> expr \<Rightarrow> ('r, 'c) rule" where
  "resolve rs v =
     (case exact rs (kind v) of
        Some h \<Rightarrow> h
      | None \<Rightarrow> if operands v = [] then terminal rs else fallback rs)"

text \<open>Modelled from the spec: \<open>Transformer.visit\<close> (section 4.1, steps 1 to 3). A cached
  node returns its cached result, and no rule is called. Otherwise the operands are
  visited in order, the rule is called on the node and their results, and its result is
  cached. An exception of a rule ends the traversal.\<close>

fun visit :: "('r, 'c) rule_set \<Rightarrow> expr \<Rightarrow> ('r, 'c) state \<Rightarrow> (error + 'r) \<times> ('r, 'c) state"
  and visit_all ::
    "('r, 'c) rule_set \<Rightarrow> expr list \<Rightarrow> ('r, 'c) state \<Rightarrow> (error + 'r list) \<times> ('r, 'c) state"
where
  "visit rs (Expr k ops) s =
     (case cache s (Expr k ops) of
        Some r \<Rightarrow> (Inr r, s)
      | None \<Rightarrow>
          (case visit_all rs ops s of
             (Inl e, s1) \<Rightarrow> (Inl e, s1)
           | (Inr results, s1) \<Rightarrow>
               (case resolve rs (Expr k ops) (Expr k ops) results (self s1) of
                  (Inl e, c) \<Rightarrow> (Inl e, s1\<lparr>self := c\<rparr>)
                | (Inr r, c) \<Rightarrow>
                    (Inr r, s1\<lparr>self := c, cache := (cache s1)(Expr k ops \<mapsto> r)\<rparr>))))"
| "visit_all rs [] s = (Inr [], s)"
| "visit_all rs (x # xs) s =
     (case visit rs x s of
        (Inl e, s1) \<Rightarrow> (Inl e, s1)
      | (Inr r, s1) \<Rightarrow>
          (case visit_all rs xs s1 of
             (Inl e, s2) \<Rightarrow> (Inl e, s2)
           | (Inr results, s2) \<Rightarrow> (Inr (r # results), s2)))"

text \<open>A traversal starts with an empty cache. The two estimators have no field that a
  rule changes (the default degree is fixed when the estimator is made), so their
  fields are the empty tuple.\<close>

definition init :: "'c \<Rightarrow> ('r, 'c) state" where
  "init c = \<lparr>cache = Map.empty, self = c\<rparr>"

definition evaluate :: "('r, unit) rule_set \<Rightarrow> expr \<Rightarrow> error + 'r" where
  "evaluate rs e = fst (visit rs e (init ()))"

text \<open>A call-counting rule set: every rule of \<open>rs\<close>, made to record the node it is
  called on, whatever the rule returns or raises. The record is a further field of the object.\<close>

definition counting_rule :: "('r, 'c) rule \<Rightarrow> ('r, 'c \<times> expr list) rule" where
  "counting_rule h v results c =
     (case h v results (fst c) of (res, c1) \<Rightarrow> (res, (c1, snd c @ [v])))"

definition counting :: "('r, 'c) rule_set \<Rightarrow> ('r, 'c \<times> expr list) rule_set" where
  "counting rs =
     \<lparr>exact = (\<lambda>k. map_option counting_rule (exact rs k)),
      terminal = counting_rule (terminal rs),
      fallback = counting_rule (fallback rs)\<rparr>"

definition calls :: "('r, 'c \<times> expr list) state \<Rightarrow> expr list" where
  "calls s = snd (self s)"

section \<open>The sum degree estimator\<close>

text \<open>The handlers of \<open>SumDegreeEstimator\<close>. Degrees are Python integers. The integer
  conversion \<open>int(g)\<close> of an operand node is defined by the node classes; it is the
  parameter \<open>to_int\<close>, \<open>None\<close> when the conversion raises.\<close>

fun sum_terminal :: "int handler" where
  "sum_terminal v [] = Inr 0"
| "sum_terminal v ops = Inl TypeError"

fun sum_spatial_coordinate :: "int handler" where
  "sum_spatial_coordinate v [] = Inr 1"
| "sum_spatial_coordinate v ops = Inl TypeError"

fun sum_form_argument :: "int \<Rightarrow> int handler" where
  "sum_form_argument default_degree v [] =
     (case element_degree v of
        Inl e \<Rightarrow> Inl e
      | Inr d \<Rightarrow> Inr (case d of None \<Rightarrow> default_degree | Some n \<Rightarrow> n))"
| "sum_form_argument default_degree v ops = Inl TypeError"

definition sum_expr :: "int handler" where
  "sum_expr v ops = py_max ops"

fun sum_spatial_derivative :: "int handler" where
  "sum_spatial_derivative v [f, i] = Inr (max (f - 1) 0)"
| "sum_spatial_derivative v ops = Inl TypeError"

definition sum_product :: "int handler" where
  "sum_product v ops = Inr (sum_list ops)"

definition sum_division :: "int handler" where
  "sum_division v ops = Inr (sum_list ops)"

fun sum_power :: "(expr \<Rightarrow> int option) \<Rightarrow> int handler" where
  "sum_power to_int v [a, b] =
     (case operands v of
        [f, g] \<Rightarrow> (case to_int g of Some gi \<Rightarrow> Inr (a * gi) | None \<Rightarrow> Inr (a * 2))
      | _ \<Rightarrow> Inl ValueError)"
| "sum_power to_int v ops = Inl TypeError"

fun sum_math_function :: "int handler" where
  "sum_math_function v [a] = Inr (if a \<noteq> 0 then a + 2 else a)"
| "sum_math_function v ops = Inl TypeError"

fun sum_bessel_function :: "int handler" where
  "sum_bessel_function v [nu, x] = Inr (if x \<noteq> 0 then x + 2 else x)"
| "sum_bessel_function v ops = Inl TypeError"

fun sum_exact :: "(expr \<Rightarrow> int option) \<Rightarrow> int \<Rightarrow> kind \<Rightarrow> int handler option" where
  "sum_exact to_int default_degree SpatialCoordinate = Some sum_spatial_coordinate"
| "sum_exact to_int default_degree (FormArgument n d) = Some (sum_form_argument default_degree)"
| "sum_exact to_int default_degree SpatialDerivative = Some sum_spatial_derivative"
| "sum_exact to_int default_degree Product = Some sum_product"
| "sum_exact to_int default_degree Division = Some sum_division"
| "sum_exact to_int default_degree Power = Some (sum_power to_int)"
| "sum_exact to_int default_degree (MathFunction m) = Some sum_math_function"
| "sum_exact to_int default_degree BesselFunction = Some sum_bessel_function"
| "sum_exact to_int default_degree k = None"

definition SumDegreeEstimator :: "(expr \<Rightarrow> int option) \<Rightarrow> int \<Rightarrow> (int, 'c) rule_set" where
  "SumDegreeEstimator to_int default_degree =
     \<lparr>exact = (\<lambda>k. map_option pure_rule (sum_exact to_int default_degree k)),
      terminal = pure_rule sum_terminal,
      fallback = pure_rule sum_expr\<rparr>"

section \<open>The max degree estimator\<close>

text \<open>The handlers of \<open>MaxDegreeEstimator\<close>. A degree is an integer or \<open>None\<close>, since
  \<open>form_argument\<close> returns the element's degree as it is.\<close>

fun max_terminal :: "int option handler" where
  "max_terminal v [] = Inr (Some 0)"
| "max_terminal v ops = Inl TypeError"

definition max_expr :: "int option handler" where
  "max_expr v ops = py_max ops"

fun max_form_argument :: "int option handler" where
  "max_form_argument v [] = element_degree v"
| "max_form_argument v ops = Inl TypeError"

definition max_product :: "int \<Rightarrow> int option handler" where
  "max_product default_degree v ops =
     (let degrees = filter (\<lambda>op. op \<noteq> None) ops
      in py_max (degrees @ [Some default_degree]))"

fun max_exact :: "int \<Rightarrow> kind \<Rightarrow> int option handler option" where
  "max_exact default_degree (FormArgument n d) = Some max_form_argument"
| "max_exact default_degree Product = Some (max_product default_degree)"
| "max_exact default_degree k = None"

definition MaxDegreeEstimator :: "int \<Rightarrow> (int option, 'c) rule_set" where
  "MaxDegreeEstimator default_degree =
     \<lparr>exact = (\<lambda>k. map_option pure_rule (max_exact default_degree k)),
      terminal = pure_rule max_terminal,
      fallback = pure_rule max_expr\<rparr>"

section \<open>The driving functions\<close>

text \<open>The argument of a driving function is a form (its integrals), one integral, or any
  other expression. \<open>ufl_assert\<close> raises when its condition is false. Both functions
  build the list \<open>degrees\<close> by the same three branches, with their own estimator:
  \<open>visit_integrands\<close> is that part, \<open>max(degrees)\<close> follows it.\<close>

datatype integral = Integral (integrand: expr)

datatype input = Form "integral list" | OneIntegral integral | Expression expr

definition visit_integrands :: "('r, unit) rule_set \<Rightarrow> input \<Rightarrow> error + 'r list" where
  "visit_integrands de e =
     (case e of
        Form integrals \<Rightarrow>
          if integrals = [] then Inl UFLException
          else sequence (map (\<lambda>i. evaluate de (integrand i)) integrals)
      | OneIntegral i \<Rightarrow> sequence [evaluate de (integrand i)]
      | Expression x \<Rightarrow> sequence [evaluate de x])"

definition estimate_max_polynomial_degree :: "input \<Rightarrow> int \<Rightarrow> error + int option" where
  "estimate_max_polynomial_degree e default_degree =
     (case visit_integrands (MaxDegreeEstimator default_degree) e of
        Inl err \<Rightarrow> Inl err
      | Inr degrees \<Rightarrow> py_max degrees)"

definition estimate_total_polynomial_degree ::
    "(expr \<Rightarrow> int option) \<Rightarrow> input \<Rightarrow> int \<Rightarrow> error + int" where
  "estimate_total_polynomial_degree to_int e default_degree =
     (case visit_integrands (SumDegreeEstimator to_int default_degree) e of
        Inl err \<Rightarrow> Inl err
      | Inr degrees \<Rightarrow> py_max degrees)"

section \<open>Auxiliary definitions\<close>

text \<open>The same post-order recursion without a cache, for a rule set without fields:
  the value a cached result has to agree with. It is used in proofs only.\<close>

fun uncached :: "('r, unit) rule_set \<Rightarrow> expr \<Rightarrow> error + 'r" where
  "uncached rs (Expr k ops) =
     (case sequence (map (uncached rs) ops) of
        Inl e \<Rightarrow> Inl e
      | Inr results \<Rightarrow> fst (resolve rs (Expr k ops) (Expr k ops) results ()))"

definition valid :: "('r, unit) rule_set \<Rightarrow> (expr \<rightharpoonup> 'r) \<Rightarrow> bool" where
  "valid rs c = (\<forall>v r. c v = Some r \<longrightarrow> uncached rs v = Inr r)"

text \<open>
  Modelled from the spec: the integer conversion of a node (\<open>__int__\<close> of the node
  classes, not among the sources). The specification speaks of an exponent that is a
  numeric constant convertible to an integer, and of the literal \<open>0.5\<close> as one that is
  not: a literal scalar converts when its value is a whole number, the zero node
  converts to 0, no other node converts. The theorems below hold for every conversion;
  this one is used at concrete inputs.
\<close>

definition literal_int :: "expr \<Rightarrow> int option" where
  "literal_int g =
     (case kind g of
        ScalarValue x \<Rightarrow> if of_int \<lfloor>x\<rfloor> = x then Some \<lfloor>x\<rfloor> else None
      | Zero \<Rightarrow> Some 0
      | _ \<Rightarrow> None)"

text \<open>The nodes of an expression graph: the expression and everything below it, each
  once however many parents refer to it.\<close>

fun nodes :: "expr \<Rightarrow> expr set" where
  "nodes (Expr k ops) = insert (Expr k ops) (\<Union>x\<in>set ops. nodes x)"

text \<open>A rule set whose every rule adds the node it is called on to the record of
  calls, as those of a call-counting rule set do.\<close>

definition recording :: "('r, 'c \<times> expr list) rule_set \<Rightarrow> bool" where
  "recording rs =
     (\<forall>v results c. snd (snd (resolve rs v v results c)) = snd c @ [v])"

text \<open>The state of a traversal that has not failed: the rules called so far are those of
  the cached nodes, once each, and with a node everything below it is cached.\<close>

definition coherent :: "('r, 'c \<times> expr list) state \<Rightarrow> bool" where
  "coherent s =
     (distinct (calls s) \<and> set (calls s) = dom (cache s) \<and>
      (\<forall>v. v \<in> dom (cache s) \<longrightarrow> nodes v \<subseteq> dom (cache s)))"

text \<open>Inputs on which degrees stay non-negative: every element degree that is present is
  non-negative, and every exponent of a power node that converts to an integer converts
  to a non-negative one.\<close>

fun nonneg_elements :: "expr \<Rightarrow> bool" where
  "nonneg_elements (Expr k ops) =
     ((case k of FormArgument n (Some d) \<Rightarrow> 0 \<le> d | _ \<Rightarrow> True) \<and>
      (\<forall>x\<in>set ops. nonneg_elements x))"

fun nonneg_exponents :: "(expr \<Rightarrow> int option) \<Rightarrow> expr \<Rightarrow> bool" where
  "nonneg_exponents to_int (Expr k ops) =
     ((case (k, ops) of
         (Power, [f, g]) \<Rightarrow> (case to_int g of Some gi \<Rightarrow> 0 \<le> gi | None \<Rightarrow> True)
       | _ \<Rightarrow> True) \<and>
      (\<forall>x\<in>set ops. nonneg_exponents to_int x))"

text \<open>The expressions a driving function evaluates for its argument.\<close>

fun integrands :: "input \<Rightarrow> expr list" where
  "integrands (Form integrals) = map integrand integrals"
| "integrands (OneIntegral i) = [integrand i]"
| "integrands (Expression x) = [x]"

section \<open>Constructors of math functions\<close>

text \<open>The argument of an operator function is a Python number or an expression node.\<close>

datatype py_value = Number real | Node expr

text \<open>Modelled from the spec: \<open>as_ufl\<close> (\<open>ufl.scalar\<close>) is not among the sources. It returns
  an expression as it is. The node it makes of a Python number, a literal scalar or the
  zero node according to the specification, is the parameter \<open>number_node\<close>.\<close>

definition as_ufl :: "(real \<Rightarrow> expr) \<Rightarrow> py_value \<Rightarrow> expr" where
  "as_ufl number_node f = (case f of Node e \<Rightarrow> e | Number x \<Rightarrow> number_node x)"

text \<open>\<open>_mathfunction(f, cls, fun)\<close>: a literal scalar and the zero node are folded by
  calling \<open>fun\<close> on the value (on 0 for the zero node); an exception of \<open>fun\<close> is not
  caught. Every other operand is wrapped in a node of class \<open>cls\<close>.\<close>

definition mathfunction ::
    "(real \<Rightarrow> expr) \<Rightarrow> py_value \<Rightarrow> mathfn \<Rightarrow> (real \<Rightarrow> error + real) \<Rightarrow> error + expr" where
  "mathfunction number_node f cls fn =
     (let f' = as_ufl number_node f in
      case kind f' of
        ScalarValue x \<Rightarrow>
          (case fn x of Inl e \<Rightarrow> Inl e | Inr y \<Rightarrow> Inr (as_ufl number_node (Number y)))
      | Zero \<Rightarrow>
          (case fn 0 of Inl e \<Rightarrow> Inl e | Inr y \<Rightarrow> Inr (as_ufl number_node (Number y)))
      | _ \<Rightarrow> Inr (Expr (MathFunction cls) [f']))"

text \<open>The functions of Python's \<open>math\<close> module that the constructors pass on, with
  floats read as real numbers: \<open>math.sqrt\<close> raises \<open>ValueError\<close> on a negative argument,
  \<open>math.log\<close> on an argument that is not positive, and \<open>math.exp\<close> raises
  \<open>OverflowError\<close> when the value is beyond the largest double.\<close>

definition max_float :: real where
  "max_float = (2 - 1 / 2 ^ 52) * 2 ^ 1023"

definition math_sqrt :: "real \<Rightarrow> error + real" where
  "math_sqrt x = (if x < 0 then Inl ValueError else Inr (sqrt x))"

definition math_exp :: "real \<Rightarrow> error + real" where
  "math_exp x = (if max_float < exp x then Inl OverflowError else Inr (exp x))"

definition math_log :: "real \<Rightarrow> error + real" where
  "math_log x = (if x \<le> 0 then Inl ValueError else Inr (ln x))"

definition math_cos :: "real \<Rightarrow> error + real" where
  "math_cos x = Inr (cos x)"

definition math_sin :: "real \<Rightarrow> error + real" where
  "math_sin x = Inr (sin x)"

text \<open>The functions \<open>sqrt\<close>, \<open>exp\<close>, \<open>ln\<close>, \<open>cos\<close> and \<open>sin\<close> of \<open>operators.py\<close>.\<close>

definition ufl_sqrt :: "(real \<Rightarrow> expr) \<Rightarrow> py_value \<Rightarrow> error + expr" where
  "ufl_sqrt number_node f = mathfunction number_node f Sqrt math_sqrt"

definition ufl_exp :: "(real \<Rightarrow> expr) \<Rightarrow> py_value \<Rightarrow> error + expr" where
  "ufl_exp number_node f = mathfunction number_node f Exp math_exp"

definition ufl_ln :: "(real \<Rightarrow> expr) \<Rightarrow> py_value \<Rightarrow> error + expr" where
  "ufl_ln number_node f = mathfunction number_node f Ln math_log"

definition ufl_cos :: "(real \<Rightarrow> expr) \<Rightarrow> py_value \<Rightarrow> error + expr" where
  "ufl_cos number_node f = mathfunction number_node f Cos math_cos"

definition ufl_sin :: "(real \<Rightarrow> expr) \<Rightarrow> py_value \<Rightarrow> error + expr" where
  "ufl_sin number_node f = mathfunction number_node f Sin math_sin"

text \<open>The value of a literal scalar node or of the zero node; \<open>None\<close> for any other
  node.\<close>

definition scalar_value :: "expr \<Rightarrow> real option" where
  "scalar_value e = (case kind e of ScalarValue x \<Rightarrow> Some x | Zero \<Rightarrow> Some 0 | _ \<Rightarrow> None)"

text \<open>Two ways of making a node of a number, both within what the specification says of
  \<open>as_ufl\<close>: always a literal scalar, or the zero node for the number 0. They are used
  at concrete inputs.\<close>

definition literal_node :: "real \<Rightarrow> expr" where
  "literal_node x = Expr (ScalarValue x) []"

definition literal_or_zero_node :: "real \<Rightarrow> expr" where
  "literal_or_zero_node x = (if x = 0 then Expr Zero [] else Expr (ScalarValue x) [])"

section \<open>The cache does not change the result\<close>

lemma valid_empty: "valid rs Map.empty"
  by (simp add: valid_def)

lemma visit_uncached:
  fixes rs :: "('r, unit) rule_set"
  shows "valid rs (cache s) \<Longrightarrow>
     fst (visit rs e s) = uncached rs e \<and> valid rs (cache (snd (visit rs e s)))"
    and "valid rs (cache s) \<Longrightarrow>
     fst (visit_all rs es s) = sequence (map (uncached rs) es) \<and>
     valid rs (cache (snd (visit_all rs es s)))"
proof (induction rs e s and rs es s rule: visit_visit_all.induct)
  case (1 rs k ops s)
  show ?case
  proof (cases "cache s (Expr k ops)")
    case (Some r)
    with 1 show ?thesis
      by (simp add: valid_def del: uncached.simps)
  next
    case None
    from "1.IH"[OF None "1.prems"] have ih:
      "fst (visit_all rs ops s) = sequence (map (uncached rs) ops)"
      "valid rs (cache (snd (visit_all rs ops s)))"
      by simp_all
    show ?thesis
    proof (cases "visit_all rs ops s")
      case (Pair res s1)
      with ih have res: "sequence (map (uncached rs) ops) = res" and v1: "valid rs (cache s1)"
        by simp_all
      show ?thesis
      proof (cases res)
        case (Inl err)
        with None Pair res v1 show ?thesis by simp
      next
        case (Inr results)
        obtain out c where call: "resolve rs (Expr k ops) (Expr k ops) results () = (out, c)"
          by (cases "resolve rs (Expr k ops) (Expr k ops) results ()")
        show ?thesis
        proof (cases out)
          case (Inl err)
          with None Pair res v1 Inr call show ?thesis
            by simp
        next
          case r: (Inr r)
          have "uncached rs (Expr k ops) = Inr r"
            using res Inr r call by simp
          with None Pair res v1 Inr r call show ?thesis
            by (simp add: valid_def del: uncached.simps)
        qed
      qed
    qed
  qed
next
  case (2 rs s)
  then show ?case by simp
next
  case (3 rs x xs s)
  from "3.IH"(1)[OF "3.prems"] have ihx:
    "fst (visit rs x s) = uncached rs x" "valid rs (cache (snd (visit rs x s)))"
    by simp_all
  show ?case
  proof (cases "visit rs x s")
    case (Pair res s1)
    with ihx have res: "uncached rs x = res" and v1: "valid rs (cache s1)" by simp_all
    show ?thesis
    proof (cases res)
      case (Inl err)
      with Pair res v1 show ?thesis by simp
    next
      case (Inr r)
      from "3.IH"(2)[OF Pair[symmetric] Inr v1] have ihxs:
        "fst (visit_all rs xs s1) = sequence (map (uncached rs) xs)"
        "valid rs (cache (snd (visit_all rs xs s1)))"
        by simp_all
      show ?thesis
      proof (cases "visit_all rs xs s1")
        case p2: (Pair res2 s2)
        with ihxs have "sequence (map (uncached rs) xs) = res2" "valid rs (cache s2)" by simp_all
        with Pair res Inr p2 show ?thesis
          by (cases res2) (simp_all)
      qed
    qed
  qed
qed

lemma evaluate_uncached: "evaluate rs e = uncached rs e"
  using visit_uncached(1)[of rs "init ()" e] by (simp add: evaluate_def init_def valid_empty)

lemma evaluate_Expr:
  "evaluate rs (Expr k ops) =
     (case sequence (map (evaluate rs) ops) of
        Inl e \<Rightarrow> Inl e
      | Inr results \<Rightarrow> fst (resolve rs (Expr k ops) (Expr k ops) results ()))"
proof -
  have "evaluate rs = uncached rs"
    by (rule ext) (rule evaluate_uncached)
  then show ?thesis by simp
qed

lemma sequence_map_Inr: "sequence (map Inr ds) = Inr ds"
  by (induction ds) simp_all

lemma evaluate_operands:
  "map (evaluate rs) ops = map Inr ds \<Longrightarrow>
     evaluate rs (Expr k ops) = fst (resolve rs (Expr k ops) (Expr k ops) ds ())"
  by (simp add: evaluate_Expr sequence_map_Inr)

lemma total_Expression:
  "estimate_total_polynomial_degree to_int (Expression x) dd =
     evaluate (SumDegreeEstimator to_int dd) x"
  by (cases "evaluate (SumDegreeEstimator to_int dd) x")
     (simp_all add: estimate_total_polynomial_degree_def visit_integrands_def)

lemma max_Expression:
  "estimate_max_polynomial_degree (Expression x) dd = evaluate (MaxDegreeEstimator dd) x"
  by (cases "evaluate (MaxDegreeEstimator dd) x")
     (simp_all add: estimate_max_polynomial_degree_def visit_integrands_def)

lemma sum_rule:
  "resolve (SumDegreeEstimator to_int dd) (Expr k ops) =
     pure_rule (case sum_exact to_int dd k of
        Some h \<Rightarrow> h
      | None \<Rightarrow> if ops = [] then sum_terminal else sum_expr)"
  by (simp add: resolve_def SumDegreeEstimator_def split: option.split)

lemma max_rule:
  "resolve (MaxDegreeEstimator dd) (Expr k ops) =
     pure_rule (case max_exact dd k of
        Some h \<Rightarrow> h
      | None \<Rightarrow> if ops = [] then max_terminal else max_expr)"
  by (simp add: resolve_def MaxDegreeEstimator_def split: option.split)

lemma resolve_sum:
  "fst (resolve (SumDegreeEstimator to_int dd) (Expr k ops) v results c) =
     (case sum_exact to_int dd k of
        Some h \<Rightarrow> h
      | None \<Rightarrow> if ops = [] then sum_terminal else sum_expr) v results"
  by (simp add: sum_rule pure_rule_def)

lemma resolve_max:
  "fst (resolve (MaxDegreeEstimator dd) (Expr k ops) v results c) =
     (case max_exact dd k of
        Some h \<Rightarrow> h
      | None \<Rightarrow> if ops = [] then max_terminal else max_expr) v results"
  by (simp add: max_rule pure_rule_def)

section \<open>The rules of the sum degree estimator\<close>

text \<open>
  C1. A power node whose base has estimated total degree \<open>d\<close>: when the integer
  conversion of the raw exponent operand succeeds with \<open>k\<close>, the estimated degree is
  \<open>d * k\<close>; when it raises, the degree is \<open>d * 2\<close>. The exponent operand is visited as
  well, so it has to have a degree of its own; that degree is not used.
\<close>

theorem sum_power_degree:
  assumes "estimate_total_polynomial_degree to_int (Expression f) dd = Inr d"
    and "estimate_total_polynomial_degree to_int (Expression g) dd = Inr e"
  shows "estimate_total_polynomial_degree to_int (Expression (Expr Power [f, g])) dd
           = Inr (case to_int g of Some k \<Rightarrow> d * k | None \<Rightarrow> d * 2)"
proof -
  from assms have "map (evaluate (SumDegreeEstimator to_int dd)) [f, g] = map Inr [d, e]"
    by (simp add: total_Expression)
  from evaluate_operands[OF this] show ?thesis
    by (simp add: total_Expression resolve_sum split: option.split)
qed

theorem sum_power_degree_witness:
  "estimate_total_polynomial_degree literal_int
      (Expression (Expr (FormArgument 0 (Some 2)) [])) 1 = Inr 2 \<and>
   estimate_total_polynomial_degree literal_int (Expression (Expr (ScalarValue 3) [])) 1 = Inr 0 \<and>
   estimate_total_polynomial_degree literal_int
      (Expression (Expr Power [Expr (FormArgument 0 (Some 2)) [], Expr (ScalarValue 3) []])) 1
      = Inr 6 \<and>
   estimate_total_polynomial_degree literal_int
      (Expression (Expr (FormArgument 0 (Some 3)) [])) 1 = Inr 3 \<and>
   estimate_total_polynomial_degree literal_int (Expression (Expr (ScalarValue (1 / 2)) [])) 1
      = Inr 0 \<and>
   estimate_total_polynomial_degree literal_int
      (Expression (Expr Power [Expr (FormArgument 0 (Some 3)) [], Expr (ScalarValue (1 / 2)) []])) 1
      = Inr 6"
proof -
  have f: "estimate_total_polynomial_degree literal_int
      (Expression (Expr (FormArgument 0 (Some 2)) [])) 1 = Inr 2"
    by (simp add: total_Expression evaluate_Expr resolve_sum element_degree_def)
  have g: "estimate_total_polynomial_degree literal_int
      (Expression (Expr (ScalarValue 3) [])) 1 = Inr 0"
    by (simp add: total_Expression evaluate_Expr resolve_sum)
  have f': "estimate_total_polynomial_degree literal_int
      (Expression (Expr (FormArgument 0 (Some 3)) [])) 1 = Inr 3"
    by (simp add: total_Expression evaluate_Expr resolve_sum element_degree_def)
  have g': "estimate_total_polynomial_degree literal_int
      (Expression (Expr (ScalarValue (1 / 2)) [])) 1 = Inr 0"
    by (simp add: total_Expression evaluate_Expr resolve_sum)
  from sum_power_degree[OF f g] sum_power_degree[OF f' g'] f g f' g' show ?thesis
    by (simp add: literal_int_def)
qed

text \<open>
  C5. Under the sum rule set the degree of a product node and of a division node is the
  sum of the degrees of its operands, for any number of operands. With \<open>ops = [a, b]\<close>
  and \<open>ds = [da, db]\<close> this is the degree \<open>da + db\<close> of \<open>a * b\<close> and of \<open>a / b\<close>.
\<close>

theorem sum_product_division_degree:
  assumes "map (\<lambda>x. estimate_total_polynomial_degree to_int (Expression x) dd) ops = map Inr ds"
  shows "estimate_total_polynomial_degree to_int (Expression (Expr Product ops)) dd
           = Inr (sum_list ds) \<and>
         estimate_total_polynomial_degree to_int (Expression (Expr Division ops)) dd
           = Inr (sum_list ds)"
proof -
  from assms have "map (evaluate (SumDegreeEstimator to_int dd)) ops = map Inr ds"
    by (simp add: total_Expression)
  from evaluate_operands[OF this] show ?thesis
    by (simp add: total_Expression resolve_sum sum_product_def sum_division_def)
qed

theorem sum_product_division_degree_witness:
  "map (\<lambda>x. estimate_total_polynomial_degree literal_int (Expression x) 1)
      [Expr SpatialCoordinate [], Expr (FormArgument 0 (Some 2)) []] = map Inr [1, 2] \<and>
   estimate_total_polynomial_degree literal_int
      (Expression (Expr Product [Expr SpatialCoordinate [], Expr (FormArgument 0 (Some 2)) []])) 1
      = Inr 3 \<and>
   estimate_total_polynomial_degree literal_int
      (Expression (Expr Division [Expr SpatialCoordinate [], Expr (FormArgument 0 (Some 2)) []])) 1
      = Inr 3"
proof -
  have h: "map (\<lambda>x. estimate_total_polynomial_degree literal_int (Expression x) 1)
      [Expr SpatialCoordinate [], Expr (FormArgument 0 (Some 2)) []] = map Inr [1, 2]"
    by (simp add: total_Expression evaluate_Expr resolve_sum element_degree_def)
  from sum_product_division_degree[OF h] h show ?thesis by simp
qed


section \<open>Maxima\<close>

lemma py_max_Max: "xs \<noteq> [] \<Longrightarrow> py_max xs = Inr (Max (set xs))"
  by (cases xs) (simp_all add: Max.set_eq_fold[symmetric])

lemma Max_Some_image:
  fixes A :: "int set"
  assumes "finite A" "A \<noteq> {}"
  shows "Max (Some ` A) = Some (Max A)"
proof -
  have "mono (Some :: int \<Rightarrow> int option)"
    by (simp add: mono_def)
  from mono_Max_commute[OF this assms] show ?thesis by simp
qed

lemma present_degrees:
  "set (filter (\<lambda>op. op \<noteq> None) ds @ [Some dd]) = Some ` insert dd {n. Some n \<in> set ds}"
  by (auto simp: image_iff)

lemma finite_present: "finite {n. Some n \<in> set ds}"
proof -
  have "{n. Some n \<in> set ds} = Some -` set ds" by auto
  then show ?thesis by (simp add: finite_vimageI)
qed

section \<open>Further rules of the two estimators\<close>

text \<open>
  C6. Under the sum rule set a math-function node has degree 0 when its operand has
  degree 0, and the operand's degree plus 2 otherwise. A Bessel-function node follows
  the same rule on the degree \<open>dx\<close> of its argument; the degree \<open>dn\<close> of its order does
  not occur in the result.
\<close>

theorem sum_math_bessel_degree:
  assumes "estimate_total_polynomial_degree to_int (Expression a) dd = Inr d"
    and "estimate_total_polynomial_degree to_int (Expression nu) dd = Inr dn"
    and "estimate_total_polynomial_degree to_int (Expression x) dd = Inr dx"
  shows "estimate_total_polynomial_degree to_int (Expression (Expr (MathFunction m) [a])) dd
           = Inr (if d = 0 then 0 else d + 2) \<and>
         estimate_total_polynomial_degree to_int (Expression (Expr BesselFunction [nu, x])) dd
           = Inr (if dx = 0 then 0 else dx + 2)"
proof -
  from assms have "map (evaluate (SumDegreeEstimator to_int dd)) [a] = map Inr [d]"
    by (simp add: total_Expression)
  from evaluate_operands[OF this] have m:
    "estimate_total_polynomial_degree to_int (Expression (Expr (MathFunction m) [a])) dd
           = Inr (if d = 0 then 0 else d + 2)"
    by (simp add: total_Expression resolve_sum)
  from assms have "map (evaluate (SumDegreeEstimator to_int dd)) [nu, x] = map Inr [dn, dx]"
    by (simp add: total_Expression)
  from evaluate_operands[OF this] have
    "estimate_total_polynomial_degree to_int (Expression (Expr BesselFunction [nu, x])) dd
           = Inr (if dx = 0 then 0 else dx + 2)"
    by (simp add: total_Expression resolve_sum)
  with m show ?thesis by simp
qed

theorem sum_math_bessel_degree_witness:
  "estimate_total_polynomial_degree literal_int (Expression (Expr SpatialCoordinate [])) 1 = Inr 1 \<and>
   estimate_total_polynomial_degree literal_int (Expression (Expr (FormArgument 0 (Some 4)) [])) 1
     = Inr 4 \<and>
   estimate_total_polynomial_degree literal_int (Expression (Expr (Other ''Constant'') [])) 1 = Inr 0 \<and>
   estimate_total_polynomial_degree literal_int
     (Expression (Expr (MathFunction Sin) [Expr SpatialCoordinate []])) 1 = Inr 3 \<and>
   estimate_total_polynomial_degree literal_int
     (Expression (Expr BesselFunction
        [Expr (FormArgument 0 (Some 4)) [], Expr (Other ''Constant'') []])) 1 = Inr 0"
proof -
  have a: "estimate_total_polynomial_degree literal_int (Expression (Expr SpatialCoordinate [])) 1
      = Inr 1"
    by (simp add: total_Expression evaluate_Expr resolve_sum)
  have nu: "estimate_total_polynomial_degree literal_int
      (Expression (Expr (FormArgument 0 (Some 4)) [])) 1 = Inr 4"
    by (simp add: total_Expression evaluate_Expr resolve_sum element_degree_def)
  have x: "estimate_total_polynomial_degree literal_int
      (Expression (Expr (Other ''Constant'') [])) 1 = Inr 0"
    by (simp add: total_Expression evaluate_Expr resolve_sum)
  from sum_math_bessel_degree[OF a nu x, of Sin] a nu x show ?thesis by simp
qed

text \<open>
  C8. Under the sum rule set a spatial derivative of an operand of degree \<open>d\<close> has
  degree \<open>max (d - 1) 0\<close>. The max rule set has no rule for spatial derivatives: the
  rule selected for such a node is the generic one, and the degree is the maximum of
  the operands' degrees (the operand and the index), hence not below the operand's.
\<close>

theorem spatial_derivative_degree:
  assumes "estimate_total_polynomial_degree to_int (Expression f) dd = Inr d"
    and "estimate_total_polynomial_degree to_int (Expression i) dd = Inr di"
    and "estimate_max_polynomial_degree (Expression f) dd = Inr m"
    and "estimate_max_polynomial_degree (Expression i) dd = Inr mi"
  shows "estimate_total_polynomial_degree to_int (Expression (Expr SpatialDerivative [f, i])) dd
           = Inr (max (d - 1) 0) \<and>
         resolve (MaxDegreeEstimator dd) (Expr SpatialDerivative [f, i]) = pure_rule max_expr \<and>
         estimate_max_polynomial_degree (Expression (Expr SpatialDerivative [f, i])) dd
           = Inr (max m mi)"
proof -
  from assms have "map (evaluate (SumDegreeEstimator to_int dd)) [f, i] = map Inr [d, di]"
    by (simp add: total_Expression)
  from evaluate_operands[OF this] have s:
    "estimate_total_polynomial_degree to_int (Expression (Expr SpatialDerivative [f, i])) dd
           = Inr (max (d - 1) 0)"
    by (simp add: total_Expression resolve_sum)
  from assms have "map (evaluate (MaxDegreeEstimator dd)) [f, i] = map Inr [m, mi]"
    by (simp add: max_Expression)
  from evaluate_operands[OF this] have
    "estimate_max_polynomial_degree (Expression (Expr SpatialDerivative [f, i])) dd
           = max_expr (Expr SpatialDerivative [f, i]) [m, mi]"
    by (simp add: max_Expression resolve_max)
  moreover have "max_expr (Expr SpatialDerivative [f, i]) [m, mi] = Inr (max m mi)"
    by (simp add: max_expr_def max.commute)
  ultimately show ?thesis using s by (simp add: max_rule)
qed

theorem spatial_derivative_degree_witness:
  "estimate_total_polynomial_degree literal_int (Expression (Expr (FormArgument 0 (Some 2)) [])) 1
     = Inr 2 \<and>
   estimate_total_polynomial_degree literal_int (Expression (Expr (Other ''MultiIndex'') [])) 1
     = Inr 0 \<and>
   estimate_max_polynomial_degree (Expression (Expr (FormArgument 0 (Some 2)) [])) 1
     = Inr (Some 2) \<and>
   estimate_max_polynomial_degree (Expression (Expr (Other ''MultiIndex'') [])) 1 = Inr (Some 0) \<and>
   estimate_total_polynomial_degree literal_int
     (Expression (Expr SpatialDerivative
        [Expr (FormArgument 0 (Some 2)) [], Expr (Other ''MultiIndex'') []])) 1 = Inr 1 \<and>
   estimate_max_polynomial_degree
     (Expression (Expr SpatialDerivative
        [Expr (FormArgument 0 (Some 2)) [], Expr (Other ''MultiIndex'') []])) 1 = Inr (Some 2)"
proof -
  have f: "estimate_total_polynomial_degree literal_int
      (Expression (Expr (FormArgument 0 (Some 2)) [])) 1 = Inr 2"
    by (simp add: total_Expression evaluate_Expr resolve_sum element_degree_def)
  have i: "estimate_total_polynomial_degree literal_int
      (Expression (Expr (Other ''MultiIndex'') [])) 1 = Inr 0"
    by (simp add: total_Expression evaluate_Expr resolve_sum)
  have mf: "estimate_max_polynomial_degree (Expression (Expr (FormArgument 0 (Some 2)) [])) 1
      = Inr (Some 2)"
    by (simp add: max_Expression evaluate_Expr resolve_max element_degree_def)
  have mi: "estimate_max_polynomial_degree (Expression (Expr (Other ''MultiIndex'') [])) 1
      = Inr (Some 0)"
    by (simp add: max_Expression evaluate_Expr resolve_max)
  note d = spatial_derivative_degree[OF f i mf mi]
  from d[THEN conjunct1] d[THEN conjunct2, THEN conjunct2] f i mf mi show ?thesis by simp
qed

text \<open>
  C9. Under the max rule set the degree of a product node is the maximum of the default
  degree and of the operand degrees that are not absent. The default is always part of
  the maximum, so the result is never below it.
\<close>

theorem max_product_degree:
  assumes "map (\<lambda>x. estimate_max_polynomial_degree (Expression x) dd) ops = map Inr ds"
  shows "estimate_max_polynomial_degree (Expression (Expr Product ops)) dd
           = Inr (Some (Max (insert dd {n. Some n \<in> set ds}))) \<and>
         dd \<le> Max (insert dd {n. Some n \<in> set ds})"
proof -
  from assms have "map (evaluate (MaxDegreeEstimator dd)) ops = map Inr ds"
    by (simp add: max_Expression)
  from evaluate_operands[OF this] have
    "estimate_max_polynomial_degree (Expression (Expr Product ops)) dd
       = py_max (filter (\<lambda>op. op \<noteq> None) ds @ [Some dd])"
    by (simp add: max_Expression resolve_max max_product_def)
  also have "\<dots> = Inr (Max (set (filter (\<lambda>op. op \<noteq> None) ds @ [Some dd])))"
    by (rule py_max_Max) simp
  also have "\<dots> = Inr (Max (Some ` insert dd {n. Some n \<in> set ds}))"
    by (simp only: present_degrees)
  also have "Max (Some ` insert dd {n. Some n \<in> set ds})
       = Some (Max (insert dd {n. Some n \<in> set ds}))"
    by (rule Max_Some_image) (simp_all add: finite_present)
  finally show ?thesis
    by (simp add: finite_present)
qed

theorem max_product_degree_witness:
  "map (\<lambda>x. estimate_max_polynomial_degree (Expression x) 3)
      [Expr (FormArgument 0 None) [], Expr (FormArgument 1 (Some 2)) []]
     = map Inr [None, Some 2] \<and>
   estimate_max_polynomial_degree
      (Expression (Expr Product [Expr (FormArgument 0 None) [], Expr (FormArgument 1 (Some 2)) []])) 3
     = Inr (Some 3)"
proof -
  have h: "map (\<lambda>x. estimate_max_polynomial_degree (Expression x) 3)
      [Expr (FormArgument 0 None) [], Expr (FormArgument 1 (Some 2)) []]
     = map Inr [None, Some 2]"
    by (simp add: max_Expression evaluate_Expr resolve_max element_degree_def)
  have "{n. Some n \<in> set [None, Some (2::int)]} = {2}" by auto
  with max_product_degree[OF h] h show ?thesis by simp
qed

text \<open>
  C3. The max estimate of a form argument whose element has no degree is \<open>None\<close>, not
  an integer: the driving function returns what \<open>form_argument\<close> returned, although its
  documentation promises the default degree.
\<close>

theorem max_degree_absent:
  "estimate_max_polynomial_degree (Expression (Expr (FormArgument 0 None) [])) 1 = Inr None"
  by (simp add: max_Expression evaluate_Expr resolve_max element_degree_def)

section \<open>The driving functions on forms and integrals\<close>

lemma visit_integrands_Form:
  assumes "integrals \<noteq> []" and "map (\<lambda>i. evaluate de (integrand i)) integrals = map Inr ds"
  shows "visit_integrands de (Form integrals) = Inr ds"
  using assms by (simp add: visit_integrands_def sequence_map_Inr)

text \<open>
  C4. Both driving functions fail on a form without integrals, before anything is
  evaluated. On a form with at least one integral, all of whose integrands have a
  degree, they return the maximum of these degrees (for the max estimator an absent
  degree is the least one). On a single integral they return what they return on its
  integrand.
\<close>

theorem driving_functions:
  assumes "integrals \<noteq> []"
    and "map (\<lambda>i. estimate_total_polynomial_degree to_int (Expression (integrand i)) dd) integrals
           = map Inr ds"
    and "map (\<lambda>i. estimate_max_polynomial_degree (Expression (integrand i)) dd) integrals
           = map Inr ms"
  shows "estimate_total_polynomial_degree to_int (Form []) dd = Inl UFLException \<and>
         estimate_max_polynomial_degree (Form []) dd = Inl UFLException \<and>
         estimate_total_polynomial_degree to_int (Form integrals) dd = Inr (Max (set ds)) \<and>
         estimate_max_polynomial_degree (Form integrals) dd = Inr (Max (set ms)) \<and>
         estimate_total_polynomial_degree to_int (OneIntegral i) dd
           = estimate_total_polynomial_degree to_int (Expression (integrand i)) dd \<and>
         estimate_max_polynomial_degree (OneIntegral i) dd
           = estimate_max_polynomial_degree (Expression (integrand i)) dd"
proof -
  from assms(1,2) have "length ds = length integrals" "ds \<noteq> []"
    by (auto dest: arg_cong[where f=length])
  moreover from assms(1,3) have "ms \<noteq> []"
    by (auto dest: arg_cong[where f=length])
  moreover from assms(2) have
    "map (\<lambda>i. evaluate (SumDegreeEstimator to_int dd) (integrand i)) integrals = map Inr ds"
    by (simp add: total_Expression)
  note visit_integrands_Form[OF assms(1) this]
  moreover from assms(3) have
    "map (\<lambda>i. evaluate (MaxDegreeEstimator dd) (integrand i)) integrals = map Inr ms"
    by (simp add: max_Expression)
  note visit_integrands_Form[OF assms(1) this]
  ultimately show ?thesis
    by (simp add: estimate_total_polynomial_degree_def estimate_max_polynomial_degree_def
        py_max_Max) (simp add: visit_integrands_def)
qed


theorem driving_functions_witness:
  "[Integral (Expr (FormArgument 0 (Some 2)) []), Integral (Expr (FormArgument 1 (Some 5)) [])] \<noteq> [] \<and>
   map (\<lambda>i. estimate_total_polynomial_degree literal_int (Expression (integrand i)) 1)
     [Integral (Expr (FormArgument 0 (Some 2)) []), Integral (Expr (FormArgument 1 (Some 5)) [])]
     = map Inr [2, 5] \<and>
   map (\<lambda>i. estimate_max_polynomial_degree (Expression (integrand i)) 1)
     [Integral (Expr (FormArgument 0 (Some 2)) []), Integral (Expr (FormArgument 1 (Some 5)) [])]
     = map Inr [Some 2, Some 5] \<and>
   estimate_total_polynomial_degree literal_int (Form []) 1 = Inl UFLException \<and>
   estimate_max_polynomial_degree (Form []) 1 = Inl UFLException \<and>
   estimate_total_polynomial_degree literal_int
     (Form [Integral (Expr (FormArgument 0 (Some 2)) []),
            Integral (Expr (FormArgument 1 (Some 5)) [])]) 1 = Inr 5 \<and>
   estimate_max_polynomial_degree
     (Form [Integral (Expr (FormArgument 0 (Some 2)) []),
            Integral (Expr (FormArgument 1 (Some 5)) [])]) 1 = Inr (Some 5) \<and>
   estimate_total_polynomial_degree literal_int
     (OneIntegral (Integral (Expr (FormArgument 0 (Some 2)) []))) 1 = Inr 2 \<and>
   estimate_max_polynomial_degree
     (OneIntegral (Integral (Expr (FormArgument 0 (Some 2)) []))) 1 = Inr (Some 2)"
proof -
  have n: "[Integral (Expr (FormArgument 0 (Some 2)) []),
            Integral (Expr (FormArgument 1 (Some 5)) [])] \<noteq> []"
    by simp
  have t: "map (\<lambda>i. estimate_total_polynomial_degree literal_int (Expression (integrand i)) 1)
     [Integral (Expr (FormArgument 0 (Some 2)) []), Integral (Expr (FormArgument 1 (Some 5)) [])]
     = map Inr [2, 5]"
    by (simp add: total_Expression evaluate_Expr resolve_sum element_degree_def)
  have m: "map (\<lambda>i. estimate_max_polynomial_degree (Expression (integrand i)) 1)
     [Integral (Expr (FormArgument 0 (Some 2)) []), Integral (Expr (FormArgument 1 (Some 5)) [])]
     = map Inr [Some 2, Some 5]"
    by (simp add: max_Expression evaluate_Expr resolve_max element_degree_def)
  from driving_functions[OF n t m, of "Integral (Expr (FormArgument 0 (Some 2)) [])"] t m
  show ?thesis by simp
qed

section \<open>Every node is evaluated once\<close>

lemma nodes_size: "n \<in> nodes x \<Longrightarrow> size n \<le> size x"
proof (induction x arbitrary: n)
  case (Expr k ops)
  show ?case
  proof (cases "n = Expr k ops")
    case True
    then show ?thesis by simp
  next
    case False
    with Expr.prems obtain y where y: "y \<in> set ops" "n \<in> nodes y" by auto
    from Expr.IH[OF this] have "size n \<le> size y" .
    moreover from y(1) have "size y < size (Expr k ops)"
      by (simp add: less_Suc_eq_le size_list_estimation')
    ultimately show ?thesis by simp
  qed
qed

lemma not_in_operands: "x \<in> set ops \<Longrightarrow> Expr k ops \<notin> nodes x"
proof
  assume x: "x \<in> set ops" and "Expr k ops \<in> nodes x"
  then have "size (Expr k ops) \<le> size x" by (rule_tac nodes_size)
  moreover from x have "size x < size (Expr k ops)"
    by (simp add: less_Suc_eq_le size_list_estimation')
  ultimately show False by simp
qed

lemma self_node: "e \<in> nodes e"
  by (cases e) simp

lemma coherent_init: "coherent (init (c, []))"
  by (simp add: coherent_def init_def calls_def)

lemma resolve_counting: "resolve (counting rs) v = counting_rule (resolve rs v)"
  by (simp add: resolve_def counting_def split: option.split)

lemma recording_counting: "recording (counting rs)"
  by (simp add: recording_def resolve_counting counting_rule_def split: prod.split)

lemma recording_call:
  assumes "recording rs" and "resolve rs v v results (self s) = (out, c)"
  shows "calls (s\<lparr>self := c\<rparr>) = calls s @ [v]"
    and "calls (s\<lparr>self := c, cache := m\<rparr>) = calls s @ [v]"
proof -
  from assms(1) have "snd (snd (resolve rs v v results (self s))) = snd (self s) @ [v]"
    unfolding recording_def by blast
  with assms(2) have "snd c = snd (self s) @ [v]" by simp
  then show "calls (s\<lparr>self := c\<rparr>) = calls s @ [v]"
    and "calls (s\<lparr>self := c, cache := m\<rparr>) = calls s @ [v]"
    by (simp_all add: calls_def)
qed

lemma fresh_after_operands:
  assumes "cache s (Expr k ops) = None"
    and "dom (cache s1) = dom (cache s) \<union> (\<Union>x\<in>set ops. nodes x)"
  shows "Expr k ops \<notin> dom (cache s1)"
  using assms not_in_operands[of _ ops k] by auto

lemma visit_coherent:
  "recording rs \<Longrightarrow> coherent s \<Longrightarrow> fst (visit rs e s) = Inr r \<Longrightarrow>
     coherent (snd (visit rs e s)) \<and>
     dom (cache (snd (visit rs e s))) = dom (cache s) \<union> nodes e"
  "recording rs \<Longrightarrow> coherent s \<Longrightarrow> fst (visit_all rs es s) = Inr results \<Longrightarrow>
     coherent (snd (visit_all rs es s)) \<and>
     dom (cache (snd (visit_all rs es s))) = dom (cache s) \<union> (\<Union>x\<in>set es. nodes x)"
proof (induction rs e s and rs es s arbitrary: r and results rule: visit_visit_all.induct)
  case (1 rs k ops s)
  let ?v = "Expr k ops"
  show ?case
  proof (cases "cache s ?v")
    case (Some r')
    then have "?v \<in> dom (cache s)" by auto
    with "1.prems"(2) have "nodes ?v \<subseteq> dom (cache s)"
      unfolding coherent_def by blast
    with Some "1.prems" show ?thesis by auto
  next
    case None
    obtain res s1 where p: "visit_all rs ops s = (res, s1)" by (cases "visit_all rs ops s")
    with None "1.prems"(3) obtain results where res: "res = Inr results"
      by (cases res) simp_all
    from "1.IH"[OF None "1.prems"(1,2)] p res have
      c1: "coherent s1" and d1: "dom (cache s1) = dom (cache s) \<union> (\<Union>x\<in>set ops. nodes x)"
      by simp_all
    obtain out c where call: "resolve rs ?v ?v results (self s1) = (out, c)"
      by (cases "resolve rs ?v ?v results (self s1)")
    with None "1.prems"(3) p res have out: "out = Inr r"
      by (cases out) simp_all
    let ?s = "s1\<lparr>self := c, cache := (cache s1)(?v \<mapsto> r)\<rparr>"
    from None p res call out have s': "snd (visit rs ?v s) = ?s"
      by simp
    have fresh: "?v \<notin> dom (cache s1)"
      by (rule fresh_after_operands[OF None d1])
    have log: "calls ?s = calls s1 @ [?v]"
      by (rule recording_call(2)[OF "1.prems"(1) call])
    have "coherent ?s"
      using c1 fresh d1 unfolding coherent_def log by auto
    moreover have "dom (cache ?s) = dom (cache s) \<union> nodes ?v"
      using d1 by auto
    ultimately show ?thesis by (simp only: s')
  qed
next
  case (2 rs s)
  then show ?case by simp
next
  case (3 rs x xs s)
  obtain res s1 where p: "visit rs x s = (res, s1)" by (cases "visit rs x s")
  with "3.prems"(3) obtain r where res: "res = Inr r"
    by (cases res) simp_all
  from "3.IH"(1)[OF "3.prems"(1,2)] p res have
    c1: "coherent s1" and d1: "dom (cache s1) = dom (cache s) \<union> nodes x"
    by simp_all
  obtain res2 s2 where p2: "visit_all rs xs s1 = (res2, s2)" by (cases "visit_all rs xs s1")
  with "3.prems"(3) p res obtain rest where res2: "res2 = Inr rest"
    by (cases res2) simp_all
  from "3.IH"(2)[OF p[symmetric] res "3.prems"(1) c1] p2 res2 have
    "coherent s2" "dom (cache s2) = dom (cache s1) \<union> (\<Union>x\<in>set xs. nodes x)"
    by simp_all
  with d1 p res p2 res2 show ?case by auto
qed

lemma count_list_distinct:
  "distinct xs \<Longrightarrow> count_list xs n = (if n \<in> set xs then 1 else 0)"
  by (induction xs) auto

lemma visit_distinct:
  "recording rs \<Longrightarrow> coherent s \<Longrightarrow> distinct (calls (snd (visit rs e s)))"
  "recording rs \<Longrightarrow> coherent s \<Longrightarrow> distinct (calls (snd (visit_all rs es s)))"
proof (induction rs e s and rs es s rule: visit_visit_all.induct)
  case (1 rs k ops s)
  let ?v = "Expr k ops"
  show ?case
  proof (cases "cache s ?v")
    case (Some r')
    with "1.prems" show ?thesis by (simp add: coherent_def)
  next
    case None
    obtain res s1 where p: "visit_all rs ops s = (res, s1)" by (cases "visit_all rs ops s")
    show ?thesis
    proof (cases res)
      case (Inl err)
      with "1.IH"[OF None "1.prems"] None p show ?thesis by simp
    next
      case (Inr results)
      with p have "fst (visit_all rs ops s) = Inr results" by simp
      from visit_coherent(2)[OF "1.prems" this] p have
        c1: "coherent s1" and d1: "dom (cache s1) = dom (cache s) \<union> (\<Union>x\<in>set ops. nodes x)"
        by simp_all
      from fresh_after_operands[OF None d1] c1 have d: "distinct (calls s1 @ [?v])"
        by (simp add: coherent_def)
      obtain out c where call: "resolve rs ?v ?v results (self s1) = (out, c)"
        by (cases "resolve rs ?v ?v results (self s1)")
      from recording_call[OF "1.prems"(1) call] d None p Inr call show ?thesis
        by (cases out) simp_all
    qed
  qed
next
  case (2 rs s)
  then show ?case by (simp add: coherent_def)
next
  case (3 rs x xs s)
  obtain res s1 where p: "visit rs x s = (res, s1)" by (cases "visit rs x s")
  show ?case
  proof (cases res)
    case (Inl err)
    with "3.IH"(1)[OF "3.prems"] p show ?thesis by simp
  next
    case (Inr r)
    with p have "fst (visit rs x s) = Inr r" by simp
    from visit_coherent(1)[OF "3.prems" this] p have c1: "coherent s1" by simp
    obtain res2 s2 where p2: "visit_all rs xs s1 = (res2, s2)" by (cases "visit_all rs xs s1")
    with "3.IH"(2)[OF p[symmetric] Inr "3.prems"(1) c1] p Inr show ?thesis
      by (cases res2) simp_all
  qed
qed

lemma count_list_le_1: "distinct xs \<Longrightarrow> count_list xs n \<le> 1"
  by (simp add: count_list_distinct)

text \<open>
  C10. In one evaluation with a call-counting rule set, started with an empty cache and
  an empty record, no rule is called twice for the same node, whether the evaluation
  returns a result or fails. When it returns a result, the rule of every node of the
  graph has been called exactly once, whatever the number of parents that refer to the
  node, and no other rule has been called; every node of the graph is then cached, and
  visiting it again returns its cached result and leaves the state, hence the record of
  calls, as it is.
\<close>

theorem node_evaluated_once:
  "count_list (calls (snd (visit (counting rs) e (init (c, []))))) n \<le> 1 \<and>
   (fst (visit (counting rs) e (init (c, []))) = Inr r \<longrightarrow>
      count_list (calls (snd (visit (counting rs) e (init (c, []))))) n
        = (if n \<in> nodes e then 1 else 0) \<and>
      (n \<in> nodes e \<longrightarrow>
         (\<exists>v. cache (snd (visit (counting rs) e (init (c, [])))) n = Some v \<and>
              visit (counting rs) n (snd (visit (counting rs) e (init (c, []))))
                = (Inr v, snd (visit (counting rs) e (init (c, [])))))))"
proof (intro conjI impI)
  let ?s = "snd (visit (counting rs) e (init (c, [])))"
  from visit_distinct(1)[OF recording_counting coherent_init]
  show "count_list (calls ?s) n \<le> 1"
    by (rule count_list_le_1)
  assume ok: "fst (visit (counting rs) e (init (c, []))) = Inr r"
  from visit_coherent(1)[OF recording_counting coherent_init ok] have
    c: "coherent ?s" and d: "dom (cache ?s) = nodes e"
    by (simp_all add: init_def)
  from c have "distinct (calls ?s)" "set (calls ?s) = nodes e"
    using d by (simp_all add: coherent_def)
  then show "count_list (calls ?s) n = (if n \<in> nodes e then 1 else 0)"
    by (simp add: count_list_distinct)
  assume "n \<in> nodes e"
  with d obtain v where v: "cache ?s n = Some v" by auto
  then have "visit (counting rs) n ?s = (Inr v, ?s)" by (cases n) simp
  with v show "\<exists>v. cache ?s n = Some v \<and> visit (counting rs) n ?s = (Inr v, ?s)"
    by blast
qed

theorem node_evaluated_once_witness:
  "fst (visit (counting (SumDegreeEstimator literal_int 1))
      (Expr Product [Expr SpatialCoordinate [],
         Expr (Other ''Sum'') [Expr SpatialCoordinate [], Expr (FormArgument 0 (Some 2)) []]])
      (init ((), [])))
     = Inr 3 \<and>
   calls (snd (visit (counting (SumDegreeEstimator literal_int 1))
      (Expr Product [Expr SpatialCoordinate [],
         Expr (Other ''Sum'') [Expr SpatialCoordinate [], Expr (FormArgument 0 (Some 2)) []]])
      (init ((), []))))
     = [Expr SpatialCoordinate [], Expr (FormArgument 0 (Some 2)) [],
        Expr (Other ''Sum'') [Expr SpatialCoordinate [], Expr (FormArgument 0 (Some 2)) []],
        Expr Product [Expr SpatialCoordinate [],
         Expr (Other ''Sum'') [Expr SpatialCoordinate [], Expr (FormArgument 0 (Some 2)) []]]] \<and>
   count_list (calls (snd (visit (counting (SumDegreeEstimator literal_int 1))
      (Expr Product [Expr SpatialCoordinate [],
         Expr (Other ''Sum'') [Expr SpatialCoordinate [], Expr (FormArgument 0 (Some 2)) []]])
      (init ((), [])))))
      (Expr SpatialCoordinate []) = 1"
proof -
  let ?e = "Expr Product [Expr SpatialCoordinate [],
         Expr (Other ''Sum'') [Expr SpatialCoordinate [], Expr (FormArgument 0 (Some 2)) []]]"
  let ?rs = "counting (SumDegreeEstimator literal_int 1) :: (int, unit \<times> expr list) rule_set"
  have h: "fst (visit ?rs ?e (init ((), []))) = Inr 3"
    by (simp add: init_def resolve_counting counting_rule_def sum_rule pure_rule_def
        sum_product_def sum_expr_def element_degree_def)
  have i: "calls (snd (visit ?rs ?e (init ((), []))))
     = [Expr SpatialCoordinate [], Expr (FormArgument 0 (Some 2)) [],
        Expr (Other ''Sum'') [Expr SpatialCoordinate [], Expr (FormArgument 0 (Some 2)) []], ?e]"
    by (simp add: init_def resolve_counting counting_rule_def sum_rule pure_rule_def
        sum_product_def sum_expr_def element_degree_def calls_def)
  have n: "Expr SpatialCoordinate [] \<in> nodes ?e"
    by simp
  from node_evaluated_once[of "SumDegreeEstimator literal_int 1" ?e "()"
      "Expr SpatialCoordinate []" 3] h n
  have "count_list (calls (snd (visit ?rs ?e (init ((), []))))) (Expr SpatialCoordinate []) = 1"
    by presburger
  with h i show ?thesis by blast
qed

section \<open>Signs of degrees\<close>

lemma sequence_Inr: "sequence xs = Inr ds \<Longrightarrow> xs = map Inr ds"
proof (induction xs arbitrary: ds)
  case Nil
  then show ?case by simp
next
  case (Cons x xs)
  then show ?case
    by (cases x; cases "sequence xs") auto
qed

lemma py_max_mem: "py_max xs = Inr m \<Longrightarrow> m \<in> set xs"
proof -
  have "fold max ys y \<in> set (y # ys)" for y :: "'a::linorder" and ys
    by (induction ys arbitrary: y) (auto simp: max_def)
  then show "py_max xs = Inr m \<Longrightarrow> m \<in> set xs"
    by (cases xs) auto
qed

lemma sum_handler_nonneg:
  assumes "0 \<le> dd" and "\<forall>d\<in>set ds. 0 \<le> d"
    and "nonneg_elements (Expr k ops)" and "nonneg_exponents to_int (Expr k ops)"
    and "fst (resolve (SumDegreeEstimator to_int dd) (Expr k ops) (Expr k ops) ds ()) = Inr r"
  shows "0 \<le> r"
proof (cases "sum_exact to_int dd k")
  case None
  with assms(5) have "sum_terminal (Expr k ops) ds = Inr r \<or> py_max ds = Inr r"
    by (auto simp: resolve_sum sum_expr_def split: if_splits)
  then show ?thesis
  proof
    assume "sum_terminal (Expr k ops) ds = Inr r"
    then show ?thesis by (cases ds) auto
  next
    assume "py_max ds = Inr r"
    from py_max_mem[OF this] assms(2) show ?thesis by blast
  qed
next
  case (Some h)
  with assms(5) have h: "h (Expr k ops) ds = Inr r"
    by (simp add: resolve_sum)
  show ?thesis
  proof (cases k)
    case SpatialCoordinate
    with Some h show ?thesis by (cases ds) auto
  next
    case (FormArgument n d)
    with Some h assms(1,3) show ?thesis
      by (cases ds) (auto simp: element_degree_def split: option.splits)
  next
    case SpatialDerivative
    with Some h show ?thesis
      by (cases "(Expr k ops, ds)" rule: sum_spatial_derivative.cases) auto
  next
    case Product
    with Some h assms(2) show ?thesis
      by (auto simp: sum_product_def sum_list_nonneg)
  next
    case Division
    with Some h assms(2) show ?thesis
      by (auto simp: sum_division_def sum_list_nonneg)
  next
    case Power
    with Some have hp: "h = sum_power to_int" by simp
    from h hp assms(2,4) Power show ?thesis
      by (cases "(to_int, Expr k ops, ds)" rule: sum_power.cases)
         (auto split: list.splits option.splits)
  next
    case (MathFunction m)
    with Some h assms(2) show ?thesis
      by (cases "(Expr k ops, ds)" rule: sum_math_function.cases) (auto split: if_splits)
  next
    case BesselFunction
    with Some h assms(2) show ?thesis
      by (cases "(Expr k ops, ds)" rule: sum_bessel_function.cases) (auto split: if_splits)
  qed (use Some in simp_all)
qed

lemma uncached_sum_nonneg:
  "0 \<le> dd \<Longrightarrow> nonneg_elements e \<Longrightarrow> nonneg_exponents to_int e \<Longrightarrow>
     uncached (SumDegreeEstimator to_int dd) e = Inr r \<Longrightarrow> 0 \<le> r"
proof (induction e arbitrary: r)
  case (Expr k ops)
  from Expr.prems(4) obtain ds where
    ds: "sequence (map (uncached (SumDegreeEstimator to_int dd)) ops) = Inr ds"
    and r: "fst (resolve (SumDegreeEstimator to_int dd) (Expr k ops) (Expr k ops) ds ()) = Inr r"
    by (auto split: sum.splits)
  from sequence_Inr[OF ds] have m: "map (uncached (SumDegreeEstimator to_int dd)) ops = map Inr ds" .
  have "\<forall>d\<in>set ds. 0 \<le> d"
  proof
    fix d assume "d \<in> set ds"
    then obtain j where j: "j < length ds" "ds ! j = d" by (auto simp: in_set_conv_nth)
    from m have len: "length ops = length ds" by (auto dest: arg_cong[where f=length])
    from m j len have "uncached (SumDegreeEstimator to_int dd) (ops ! j) = Inr d"
      by (metis nth_map)
    moreover from j len have "ops ! j \<in> set ops" by simp
    ultimately show "0 \<le> d"
      using Expr.IH[of "ops ! j" d] Expr.prems(1,2,3) by auto
  qed
  from sum_handler_nonneg[OF Expr.prems(1) this Expr.prems(2,3) r] show ?case .
qed


lemma max_handler_nonneg:
  assumes "0 \<le> dd" and "\<forall>d\<in>set ds. \<forall>n. d = Some n \<longrightarrow> 0 \<le> n"
    and "nonneg_elements (Expr k ops)"
    and "fst (resolve (MaxDegreeEstimator dd) (Expr k ops) (Expr k ops) ds ()) = Inr (Some n)"
  shows "0 \<le> n"
proof (cases "max_exact dd k")
  case None
  with assms(4) have "max_terminal (Expr k ops) ds = Inr (Some n) \<or> py_max ds = Inr (Some n)"
    by (auto simp: resolve_max max_expr_def split: if_splits)
  then show ?thesis
  proof
    assume "max_terminal (Expr k ops) ds = Inr (Some n)"
    then show ?thesis by (cases ds) auto
  next
    assume "py_max ds = Inr (Some n)"
    from py_max_mem[OF this] assms(2) show ?thesis by blast
  qed
next
  case (Some h)
  with assms(4) have h: "h (Expr k ops) ds = Inr (Some n)"
    by (simp add: resolve_max)
  show ?thesis
  proof (cases k)
    case (FormArgument c d)
    with Some h assms(3) show ?thesis
      by (cases ds) (auto simp: element_degree_def)
  next
    case Product
    with Some have "h = max_product dd" by simp
    with h have "py_max (filter (\<lambda>op. op \<noteq> None) ds @ [Some dd]) = Inr (Some n)"
      unfolding max_product_def Let_def by simp
    from py_max_mem[OF this] assms(1,2) show ?thesis by auto
  qed (use Some in simp_all)
qed

lemma uncached_max_nonneg:
  "0 \<le> dd \<Longrightarrow> nonneg_elements e \<Longrightarrow>
     uncached (MaxDegreeEstimator dd) e = Inr (Some n) \<Longrightarrow> 0 \<le> n"
proof (induction e arbitrary: n)
  case (Expr k ops)
  from Expr.prems(3) obtain ds where
    ds: "sequence (map (uncached (MaxDegreeEstimator dd)) ops) = Inr ds"
    and r: "fst (resolve (MaxDegreeEstimator dd) (Expr k ops) (Expr k ops) ds ()) = Inr (Some n)"
    by (auto split: sum.splits)
  from sequence_Inr[OF ds] have m: "map (uncached (MaxDegreeEstimator dd)) ops = map Inr ds" .
  have "\<forall>d\<in>set ds. \<forall>n. d = Some n \<longrightarrow> 0 \<le> n"
  proof (intro ballI allI impI)
    fix d n' assume "d \<in> set ds" and d: "d = Some n'"
    then obtain j where j: "j < length ds" "ds ! j = d" by (auto simp: in_set_conv_nth)
    from m have len: "length ops = length ds" by (auto dest: arg_cong[where f=length])
    from m j len have "uncached (MaxDegreeEstimator dd) (ops ! j) = Inr d"
      by (metis nth_map)
    moreover from j len have "ops ! j \<in> set ops" by simp
    ultimately show "0 \<le> n'"
      using Expr.IH[of "ops ! j" n'] Expr.prems(1,2) d by auto
  qed
  from max_handler_nonneg[OF Expr.prems(1) this Expr.prems(2) r] show ?case .
qed

lemma visit_integrands_results:
  "visit_integrands de inp = Inr ds \<Longrightarrow> map (evaluate de) (integrands inp) = map Inr ds"
  by (cases inp) (auto simp: visit_integrands_def comp_def dest!: sequence_Inr split: if_splits)

lemma map_Inr_mem:
  "map f xs = map Inr ds \<Longrightarrow> d \<in> set ds \<Longrightarrow> \<exists>x\<in>set xs. f x = Inr d"
proof -
  assume m: "map f xs = map Inr ds" and "d \<in> set ds"
  then have "Inr d \<in> set (map f xs)" by simp
  then show ?thesis by auto
qed

text \<open>
  C2, as amended. When the default degree is non-negative, every element degree that is
  present is non-negative and every power exponent that converts to an integer converts
  to a non-negative one, the total degree of an expression, integral or form is a
  non-negative integer whenever it is computed. Under the max rule set, with a
  non-negative default degree and non-negative element degrees, a computed degree is
  absent or a non-negative integer. As every node of such an input is such an input
  itself, this holds for the degree of every node.
\<close>

theorem degree_nonnegative:
  assumes "0 \<le> dd"
    and "list_all nonneg_elements (integrands inp)"
    and "list_all (nonneg_exponents to_int) (integrands inp)"
  shows "(\<forall>d. estimate_total_polynomial_degree to_int inp dd = Inr d \<longrightarrow> 0 \<le> d) \<and>
         (\<forall>n. estimate_max_polynomial_degree inp dd = Inr (Some n) \<longrightarrow> 0 \<le> n)"
proof (intro conjI allI impI)
  fix d assume "estimate_total_polynomial_degree to_int inp dd = Inr d"
  then obtain ds where ds: "visit_integrands (SumDegreeEstimator to_int dd) inp = Inr ds"
    and "py_max ds = Inr d"
    by (auto simp: estimate_total_polynomial_degree_def split: sum.splits)
  from py_max_mem[OF this(2)] visit_integrands_results[OF ds]
  obtain x where "x \<in> set (integrands inp)" "evaluate (SumDegreeEstimator to_int dd) x = Inr d"
    by (blast dest: map_Inr_mem)
  with assms show "0 \<le> d"
    using uncached_sum_nonneg[of dd x to_int d] by (simp add: list_all_iff evaluate_uncached)
next
  fix n assume "estimate_max_polynomial_degree inp dd = Inr (Some n)"
  then obtain ds where ds: "visit_integrands (MaxDegreeEstimator dd) inp = Inr ds"
    and "py_max ds = Inr (Some n)"
    by (auto simp: estimate_max_polynomial_degree_def split: sum.splits)
  from py_max_mem[OF this(2)] visit_integrands_results[OF ds]
  obtain x where "x \<in> set (integrands inp)" "evaluate (MaxDegreeEstimator dd) x = Inr (Some n)"
    by (blast dest: map_Inr_mem)
  with assms show "0 \<le> n"
    using uncached_max_nonneg[of dd x n] by (simp add: list_all_iff evaluate_uncached)
qed

theorem degree_nonnegative_witness:
  "(0::int) \<le> 1 \<and>
   list_all nonneg_elements (integrands (Expression
      (Expr Power [Expr (FormArgument 0 (Some 2)) [], Expr (ScalarValue 3) []]))) \<and>
   list_all (nonneg_exponents literal_int) (integrands (Expression
      (Expr Power [Expr (FormArgument 0 (Some 2)) [], Expr (ScalarValue 3) []]))) \<and>
   estimate_total_polynomial_degree literal_int (Expression
      (Expr Power [Expr (FormArgument 0 (Some 2)) [], Expr (ScalarValue 3) []])) 1 = Inr 6 \<and>
   estimate_max_polynomial_degree (Expression
      (Expr Power [Expr (FormArgument 0 (Some 2)) [], Expr (ScalarValue 3) []])) 1 = Inr (Some 2) \<and>
   (0::int) \<le> 6 \<and> (0::int) \<le> 2"
proof -
  let ?e = "Expr Power [Expr (FormArgument 0 (Some 2)) [], Expr (ScalarValue 3) []]"
  have a: "(0::int) \<le> 1" by simp
  have b: "list_all nonneg_elements (integrands (Expression ?e))" by simp
  have c: "list_all (nonneg_exponents literal_int) (integrands (Expression ?e))"
    by (simp add: literal_int_def)
  have t: "estimate_total_polynomial_degree literal_int (Expression ?e) 1 = Inr 6"
    by (simp add: total_Expression evaluate_Expr resolve_sum element_degree_def literal_int_def)
  have m: "estimate_max_polynomial_degree (Expression ?e) 1 = Inr (Some 2)"
    by (simp add: max_Expression evaluate_Expr resolve_max element_degree_def max_expr_def)
  from degree_nonnegative[OF a b c] t m have "(0::int) \<le> 6 \<and> (0::int) \<le> 2" by blast
  with a b c t m show ?thesis by blast
qed

text \<open>
  C2 as stated fails: \<open>power\<close> multiplies the degree of the base by the integer exponent
  whatever its sign, so the coordinate raised to the power \<open>-1\<close> has degree \<open>-1\<close>.
\<close>

theorem degree_negative_counterexample:
  "estimate_total_polynomial_degree literal_int
     (Expression (Expr Power [Expr SpatialCoordinate [], Expr (ScalarValue (- 1)) []])) 1
     = Inr (- 1)"
  by (simp add: total_Expression evaluate_Expr resolve_sum literal_int_def floor_minus)

section \<open>Constant folding in the math function constructors\<close>

lemma exp_overflows: "max_float < exp 1024"
proof -
  have "(2::real) \<le> exp 1"
    using exp_ge_add_one_self[of "1::real"] by simp
  then have "(2::real) ^ 1024 \<le> exp 1 ^ 1024"
    by (rule power_mono) simp
  also have "exp (1::real) ^ 1024 = exp 1024"
    using exp_of_nat_mult[of 1024 "1::real"] by simp
  finally have "(2::real) ^ 1024 \<le> exp 1024" .
  moreover have "max_float < 2 ^ 1024"
    by (simp add: max_float_def)
  ultimately show ?thesis by simp
qed

text \<open>
  C7, as amended. Let \<open>as_ufl\<close> make of every number a literal scalar or zero node of
  that value. For an operand that is a literal scalar or the zero node, with value \<open>x\<close>,
  a math function constructor returns the node \<open>as_ufl\<close> makes of the function's value
  at \<open>x\<close>, a literal scalar or zero node, when the function is defined there, and fails
  with the function's exception when it is not; it never builds a symbolic node for
  such an operand. For every other operand it builds the symbolic node. The five
  constructors are \<open>mathfunction\<close> with their class and their function.
\<close>

theorem mathfunction_folds:
  assumes "\<And>y. scalar_value (number_node y) = Some y"
  shows
  "(case scalar_value (as_ufl number_node f) of
      Some x \<Rightarrow>
        (case fn x of
           Inl err \<Rightarrow> mathfunction number_node f cls fn = Inl err
         | Inr y \<Rightarrow>
             mathfunction number_node f cls fn = Inr (as_ufl number_node (Number y)) \<and>
             scalar_value (as_ufl number_node (Number y)) = Some y)
    | None \<Rightarrow>
        mathfunction number_node f cls fn
          = Inr (Expr (MathFunction cls) [as_ufl number_node f])) \<and>
   ufl_sqrt number_node f = mathfunction number_node f Sqrt math_sqrt \<and>
   ufl_exp number_node f = mathfunction number_node f Exp math_exp \<and>
   ufl_ln number_node f = mathfunction number_node f Ln math_log \<and>
   ufl_cos number_node f = mathfunction number_node f Cos math_cos \<and>
   ufl_sin number_node f = mathfunction number_node f Sin math_sin"
proof -
  have n: "scalar_value (as_ufl number_node (Number y)) = Some y" for y
    using assms by (simp add: as_ufl_def)
  have "case scalar_value (as_ufl number_node f) of
      Some x \<Rightarrow>
        (case fn x of
           Inl err \<Rightarrow> mathfunction number_node f cls fn = Inl err
         | Inr y \<Rightarrow>
             mathfunction number_node f cls fn = Inr (as_ufl number_node (Number y)) \<and>
             scalar_value (as_ufl number_node (Number y)) = Some y)
    | None \<Rightarrow>
        mathfunction number_node f cls fn
          = Inr (Expr (MathFunction cls) [as_ufl number_node f])"
    by (cases "kind (as_ufl number_node f)")
       (simp_all add: mathfunction_def scalar_value_def[of "as_ufl number_node f"] Let_def n
          split: sum.split)
  then show ?thesis
    by (simp only: ufl_sqrt_def ufl_exp_def ufl_ln_def ufl_cos_def ufl_sin_def simp_thms)
qed

theorem mathfunction_folds_witness:
  "(\<forall>y. scalar_value (literal_or_zero_node y) = Some y) \<and>
   ufl_sqrt literal_or_zero_node (Number 4) = Inr (Expr (ScalarValue 2) []) \<and>
   ufl_cos literal_or_zero_node (Node (Expr Zero [])) = Inr (Expr (ScalarValue 1) []) \<and>
   ufl_sin literal_or_zero_node (Node (Expr Zero [])) = Inr (Expr Zero []) \<and>
   ufl_sin literal_or_zero_node (Node (Expr SpatialCoordinate []))
     = Inr (Expr (MathFunction Sin) [Expr SpatialCoordinate []])"
proof -
  have h: "scalar_value (literal_or_zero_node y) = Some y" for y
    by (simp add: scalar_value_def literal_or_zero_node_def)
  note m = mathfunction_folds[of literal_or_zero_node, OF h]
  from m[where f = "Number 4" and cls = Sqrt and fn = math_sqrt]
    m[where f = "Node (Expr Zero [])" and cls = Cos and fn = math_cos]
    m[where f = "Node (Expr Zero [])" and cls = Sin and fn = math_sin]
    m[where f = "Node (Expr SpatialCoordinate [])" and cls = Sin and fn = math_sin]
    h
  show ?thesis
    by (simp add: ufl_sqrt_def ufl_cos_def ufl_sin_def scalar_value_def as_ufl_def math_sqrt_def
        math_cos_def math_sin_def literal_or_zero_node_def)
qed

text \<open>
  C7 as stated fails: the logarithm of the zero node, or of the number 0, the square
  root of a negative literal and the exponential of a large literal return no node at
  all, since \<open>math.log\<close>, \<open>math.sqrt\<close> and \<open>math.exp\<close> raise there.
\<close>

theorem ln_zero_counterexample:
  "ufl_ln literal_or_zero_node (Node (Expr Zero [])) = Inl ValueError \<and>
   ufl_ln literal_or_zero_node (Number 0) = Inl ValueError \<and>
   ufl_ln literal_node (Number 0) = Inl ValueError \<and>
   ufl_sqrt literal_or_zero_node (Number (- 1)) = Inl ValueError \<and>
   ufl_exp literal_or_zero_node (Number 1024) = Inl OverflowError"
  using exp_overflows
  by (simp add: ufl_ln_def ufl_sqrt_def ufl_exp_def mathfunction_def as_ufl_def math_log_def
      math_sqrt_def math_exp_def literal_or_zero_node_def literal_node_def)

end
